theory Spec2Isabelle
  imports Main "HOL-Library.Word"
begin

section \<open>The relay server: data model\<close>

text \<open>
  The development embeds \<^verbatim>\<open>src/types/Room.js\<close> (the class \<^verbatim>\<open>Room\<close>) and the three
  WebSocket handlers of \<^verbatim>\<open>src/app.js\<close>. Everything the JavaScript reads from outside the
  two files is an explicit part of the state or an explicit argument:
  \<^item> a WebSocket object is a reference (\<open>handle\<close>) into a store of \<open>socket\<close> objects, because
    \<^verbatim>\<open>join\<close> writes the field \<^verbatim>\<open>clientId\<close> into the object that the registry record
    also points to;
  \<^item> \<^verbatim>\<open>crypto.randomBytes\<close> reads a stream of bytes (\<open>entropy\<close>) and consumes what it read;
  \<^item> \<^verbatim>\<open>new Date()\<close> is an argument of the function that evaluates it;
  \<^item> the Winston logger is a list of log lines, the newest last;
  \<^item> \<^verbatim>\<open>JSON.parse\<close> is an argument of the message handler; the frame
    \<^verbatim>\<open>JSON.stringify(v)\<close> is recorded as the value \<open>v\<close> it serialises.
\<close>

type_synonym handle = nat
type_synonym time = nat

datatype json =
    JNull
  | JBool bool
  | JNum int
  | JStr string
  | JArr "json list"
  | JObj "(string \<times> json) list"

text \<open>JavaScript errors that the two files can see; each carries its \<^verbatim>\<open>message\<close>.\<close>

datatype exn = TypeError string | SyntaxError string | SendError string

fun message :: "exn \<Rightarrow> string" where
  "message (TypeError m) = m"
| "message (SyntaxError m) = m"
| "message (SendError m) = m"

text \<open>
  The transport object. \<open>readyState\<close> is the field the registry compares with 1 (OPEN);
  \<open>clientId\<close> is the field \<^verbatim>\<open>join\<close> attaches (\<open>None\<close> is \<^verbatim>\<open>undefined\<close>);
  \<open>sendError\<close> says whether \<^verbatim>\<open>send\<close> throws, and with what message;
  \<open>outbox\<close> collects the frames that \<^verbatim>\<open>send\<close> has written.
\<close>

record socket =
  readyState :: nat
  clientId :: "string option"
  sendError :: "string option"
  outbox :: "json list"

text \<open>The value stored in the registry: \<^verbatim>\<open>{ ws: client, id: id, joinedAt: new Date() }\<close>.\<close>

record clientInfo =
  ws :: handle
  id_of :: string
  joinedAt :: time

datatype level = LInfo | LWarn | LError

text \<open>
  One constructor for each log template of the two files, with the values the template
  interpolates (the text itself is Korean prose and carries nothing else).
\<close>

datatype logline =
    RoomCreated
  | ClientJoined string nat
  | NoClientId
  | ClientLeft string nat
  | ClientNotInRoom string
  | BroadcastStart nat
  | BroadcastClosed string
  | BroadcastSendFailed string string
  | BroadcastDone nat nat
  | UnicastNotFound string
  | UnicastOk string
  | UnicastClosed string
  | UnicastSendFailed string string
  | RoomCleared nat
  | ConnectionOpened
  | MessageReceived string
  | MessageFailed string
  | ConnectionClosed
  | SocketError string

text \<open>
  \<open>clients\<close> is \<^verbatim>\<open>this.clients\<close>, a JavaScript \<^verbatim>\<open>Map\<close>: an association list in insertion
  order. \<open>console\<close> is what \<^verbatim>\<open>console.log\<close> has printed.
\<close>

record world =
  clients :: "(string \<times> clientInfo) list"
  sockets :: "handle \<Rightarrow> socket"
  logs :: "(level \<times> logline) list"
  entropy :: "nat \<Rightarrow> 8 word"
  console :: "string option list"

definition logger :: "level \<Rightarrow> logline \<Rightarrow> world \<Rightarrow> world" where
  "logger l m w = w\<lparr>logs := logs w @ [(l, m)]\<rparr>"

subsection \<open>The JavaScript Map\<close>

text \<open>\<^verbatim>\<open>Map.prototype.set\<close>: an existing key keeps its place and takes the new value.\<close>

fun Map_set :: "'k \<Rightarrow> 'v \<Rightarrow> ('k \<times> 'v) list \<Rightarrow> ('k \<times> 'v) list" where
  "Map_set k v [] = [(k, v)]"
| "Map_set k v ((k', v') # m) = (if k' = k then (k, v) # m else (k', v') # Map_set k v m)"

definition Map_has :: "'k \<Rightarrow> ('k \<times> 'v) list \<Rightarrow> bool" where
  "Map_has k m = (k \<in> set (map fst m))"

text \<open>\<^verbatim>\<open>Map.prototype.delete\<close> returns whether the key was there.\<close>

definition Map_delete :: "'k \<Rightarrow> ('k \<times> 'v) list \<Rightarrow> bool \<times> ('k \<times> 'v) list" where
  "Map_delete k m = (Map_has k m, filter (\<lambda>e. fst e \<noteq> k) m)"

definition Map_get :: "'k \<Rightarrow> ('k \<times> 'v) list \<Rightarrow> 'v option" where
  "Map_get k m = map_of m k"

subsection \<open>The runtime: random bytes, hexadecimal text, the transport's send\<close>

text \<open>\<^verbatim>\<open>crypto.randomBytes(n)\<close>: the next \<open>n\<close> bytes of the entropy stream.\<close>

definition randomBytes :: "nat \<Rightarrow> world \<Rightarrow> 8 word list \<times> world" where
  "randomBytes n w = (map (entropy w) [0..<n], w\<lparr>entropy := (\<lambda>i. entropy w (i + n))\<rparr>)"

definition hexDigits :: string where
  "hexDigits = ''0123456789abcdef''"

definition byteToHex :: "8 word \<Rightarrow> string" where
  "byteToHex b = [hexDigits ! (unat b div 16), hexDigits ! (unat b mod 16)]"

text \<open>\<^verbatim>\<open>Buffer.prototype.toString('hex')\<close>: two lower-case digits for each byte.\<close>

definition toHex :: "8 word list \<Rightarrow> string" where
  "toHex bs = concat (map byteToHex bs)"

text \<open>\<^verbatim>\<open>client.send(data)\<close>: throws, or appends the frame to what the peer receives.\<close>

definition ws_send :: "handle \<Rightarrow> json \<Rightarrow> world \<Rightarrow> exn + world" where
  "ws_send h d w =
     (case sendError (sockets w h) of
        Some e \<Rightarrow> Inl (SendError e)
      | None \<Rightarrow> Inr (w\<lparr>sockets := (sockets w)(h := (sockets w h)\<lparr>outbox := outbox (sockets w h) @ [d]\<rparr>)\<rparr>))"

section \<open>Room.js\<close>

text \<open>The constructor: an empty map and one log line. The sockets and the entropy are the environment's.\<close>

definition newRoom :: "(handle \<Rightarrow> socket) \<Rightarrow> (nat \<Rightarrow> 8 word) \<Rightarrow> world" where
  "newRoom socks ent =
     \<lparr>clients = [], sockets = socks, logs = [(LInfo, RoomCreated)], entropy = ent, console = []\<rparr>"

text \<open>
  \<^verbatim>\<open>clientId || crypto.randomBytes(8).toString('hex')\<close>: \<^verbatim>\<open>null\<close>, \<^verbatim>\<open>undefined\<close> (both \<open>None\<close>)
  and the empty string are falsy; the right operand is evaluated only then.
\<close>

definition chooseId :: "string option \<Rightarrow> world \<Rightarrow> string \<times> world" where
  "chooseId givenId w =
     (case givenId of
        Some s \<Rightarrow> if s \<noteq> [] then (s, w) else (let (bs, w') = randomBytes 8 w in (toHex bs, w'))
      | None \<Rightarrow> (let (bs, w') = randomBytes 8 w in (toHex bs, w')))"

definition join :: "world \<Rightarrow> handle \<Rightarrow> string option \<Rightarrow> time \<Rightarrow> string \<times> world" where
  "join w client givenId now =
     (let (i, w1) = chooseId givenId w;
          info = \<lparr>ws = client, id_of = i, joinedAt = now\<rparr>;
          w2 = w1\<lparr>clients := Map_set i info (clients w1)\<rparr>;
          w3 = logger LInfo (ClientJoined i (length (clients w2))) w2;
          w4 = w3\<lparr>sockets := (sockets w3)(client := (sockets w3 client)\<lparr>clientId := Some i\<rparr>)\<rparr>
      in (i, w4))"

text \<open>The argument of \<^verbatim>\<open>leave\<close>: a string, or a WebSocket object.\<close>

datatype leaveArg = ById string | ByHandle handle

text \<open>Lines 95 to 100 of \<^verbatim>\<open>leave\<close>: \<^verbatim>\<open>typeof clientOrId === 'string'\<close>, else the attached field.\<close>

definition resolveId :: "world \<Rightarrow> leaveArg \<Rightarrow> string option" where
  "resolveId w a = (case a of ById s \<Rightarrow> Some s | ByHandle h \<Rightarrow> clientId (sockets w h))"

text \<open>
  \<^verbatim>\<open>if (!clientId)\<close> is taken for \<^verbatim>\<open>undefined\<close> and for the empty string; otherwise
  \<^verbatim>\<open>this.clients.delete(clientId)\<close> decides the result and the log line.
\<close>

definition leave :: "world \<Rightarrow> leaveArg \<Rightarrow> bool \<times> world" where
  "leave w clientOrId =
     (case resolveId w clientOrId of
        None \<Rightarrow> (False, logger LWarn NoClientId w)
      | Some k \<Rightarrow>
          if k = [] then (False, logger LWarn NoClientId w)
          else
            (let (removed, m) = Map_delete k (clients w);
                 w1 = w\<lparr>clients := m\<rparr>
             in if removed then (True, logger LInfo (ClientLeft k (length (clients w1))) w1)
                else (False, logger LWarn (ClientNotInRoom k) w1)))"

text \<open>
  One turn of the loop of \<^verbatim>\<open>forwardMessage\<close> (lines 142 to 159): the counters, the
  \<^verbatim>\<open>try\<close> with the test of \<^verbatim>\<open>readyState\<close> and the write, and the \<^verbatim>\<open>catch\<close>.
\<close>

definition forwardStep :: "json \<Rightarrow> string \<times> clientInfo \<Rightarrow> nat \<times> nat \<times> world \<Rightarrow> nat \<times> nat \<times> world" where
  "forwardStep msg e acc =
     (case acc of (successCount, failCount, w) \<Rightarrow>
        (let client = ws (snd e) in
         if readyState (sockets w client) = 1 then
           (case ws_send client msg w of
              Inr w' \<Rightarrow> (successCount + 1, failCount, w')
            | Inl err \<Rightarrow> (successCount, failCount + 1,
                           logger LError (BroadcastSendFailed (fst e) (message err)) w))
         else (successCount, failCount + 1, logger LWarn (BroadcastClosed (fst e)) w)))"

fun forwardLoop :: "json \<Rightarrow> (string \<times> clientInfo) list \<Rightarrow> nat \<times> nat \<times> world \<Rightarrow> nat \<times> nat \<times> world" where
  "forwardLoop msg [] acc = acc"
| "forwardLoop msg (e # es) acc = forwardLoop msg es (forwardStep msg e acc)"

definition forwardMessage :: "world \<Rightarrow> json \<Rightarrow> (exn + unit) \<times> world" where
  "forwardMessage w msg =
     (let w0 = logger LInfo (BroadcastStart (length (clients w))) w;
          (successCount, failCount, w1) = forwardLoop msg (clients w0) (0, 0, w0)
      in (Inr (), logger LInfo (BroadcastDone successCount failCount) w1))"

definition sendToClient :: "world \<Rightarrow> string \<Rightarrow> json \<Rightarrow> (exn + bool) \<times> world" where
  "sendToClient w i msg =
     (case Map_get i (clients w) of
        None \<Rightarrow> (Inr False, logger LWarn (UnicastNotFound i) w)
      | Some info \<Rightarrow>
          (let client = ws info in
           if readyState (sockets w client) = 1 then
             (case ws_send client msg w of
                Inr w' \<Rightarrow> (Inr True, logger LInfo (UnicastOk i) w')
              | Inl err \<Rightarrow> (Inr False, logger LError (UnicastSendFailed i (message err)) w))
           else (Inr False, logger LWarn (UnicastClosed i) w)))"

text \<open>\<^verbatim>\<open>this.clients.get(clientId) || null\<close>: a record is an object, hence truthy; \<open>None\<close> is \<^verbatim>\<open>null\<close>.\<close>

definition getClient :: "world \<Rightarrow> string \<Rightarrow> clientInfo option" where
  "getClient w i = Map_get i (clients w)"

definition getClientIds :: "world \<Rightarrow> string list" where
  "getClientIds w = map fst (clients w)"

definition getClientCount :: "world \<Rightarrow> nat" where
  "getClientCount w = length (clients w)"

definition clear :: "world \<Rightarrow> world" where
  "clear w = (let previousCount = length (clients w) in
              logger LInfo (RoomCleared previousCount) (w\<lparr>clients := []\<rparr>))"

section \<open>app.js\<close>

text \<open>The part of the upgrade request that the handler reads: \<^verbatim>\<open>req.headers.cookie\<close>.\<close>

record request =
  cookie :: "string option"

definition connectedText :: string where
  "connectedText =
     [CHR 0xEC, CHR 0x84, CHR 0x9C, CHR 0xEB, CHR 0xB2, CHR 0x84, CHR 0xEC, CHR 0x97,
      CHR 0x90, CHR 0x20, CHR 0xEC, CHR 0x84, CHR 0xB1, CHR 0xEA, CHR 0xB3, CHR 0xB5,
      CHR 0xEC, CHR 0xA0, CHR 0x81, CHR 0xEC, CHR 0x9C, CHR 0xBC, CHR 0xEB, CHR 0xA1,
      CHR 0x9C, CHR 0x20, CHR 0xEC, CHR 0x97, CHR 0xB0, CHR 0xEA, CHR 0xB2, CHR 0xB0,
      CHR 0xEB, CHR 0x90, CHR 0x98, CHR 0xEC, CHR 0x97, CHR 0x88, CHR 0xEC, CHR 0x8A,
      CHR 0xB5, CHR 0xEB, CHR 0x8B, CHR 0x88, CHR 0xEB, CHR 0x8B, CHR 0xA4]"

text \<open>
  The object of lines 111 to 115; \<open>stamp\<close> is what \<^verbatim>\<open>new Date().toISOString()\<close> yields there,
  \<open>connectedText\<close> the UTF-8 bytes of the literal of line 113.
\<close>

definition connectedAck :: "string \<Rightarrow> json" where
  "connectedAck stamp =
     JObj [(''type'', JStr ''connected''), (''message'', JStr connectedText), (''timestamp'', JStr stamp)]"

text \<open>
  The \<^verbatim>\<open>connection\<close> handler. \<^verbatim>\<open>cookies.split('=')\<close> on \<^verbatim>\<open>undefined\<close> throws a TypeError
  that nothing catches; destructuring the array that \<^verbatim>\<open>split\<close> returns binds two unused
  names. The three \<^verbatim>\<open>ws.on\<close> registrations change nothing that is modelled; the handlers
  they register are \<open>onMessage\<close>, \<open>onClose\<close> and \<open>onError\<close>. The final \<^verbatim>\<open>ws.send\<close> is
  outside any \<^verbatim>\<open>try\<close>.
\<close>

definition onConnection :: "world \<Rightarrow> handle \<Rightarrow> request \<Rightarrow> time \<Rightarrow> string \<Rightarrow> (exn + unit) \<times> world" where
  "onConnection w h req now stamp =
     (let w1 = logger LInfo ConnectionOpened w;
          w2 = w1\<lparr>console := console w1 @ [cookie req]\<rparr>
      in case cookie req of
           None \<Rightarrow> (Inl (TypeError ''Cannot read properties of undefined (reading 'split')''), w2)
         | Some c \<Rightarrow>
             (let (i, w3) = join w2 h None now in
              case ws_send h (connectedAck stamp) w3 of
                Inl e \<Rightarrow> (Inl e, w3)
              | Inr w4 \<Rightarrow> (Inr (), w4)))"

text \<open>
  The \<^verbatim>\<open>message\<close> handler. \<open>parse\<close> is \<^verbatim>\<open>JSON.parse\<close>: the parsed value, or the message of
  the SyntaxError it throws. The \<^verbatim>\<open>catch\<close> covers the call of \<^verbatim>\<open>forwardMessage\<close> as well.
\<close>

definition onMessage :: "(string \<Rightarrow> string + json) \<Rightarrow> world \<Rightarrow> string \<Rightarrow> (exn + unit) \<times> world" where
  "onMessage parse w messageStr =
     (let w1 = logger LInfo (MessageReceived messageStr) w in
      case parse messageStr of
        Inl m \<Rightarrow> (Inr (), logger LError (MessageFailed m) w1)
      | Inr parsedMessage \<Rightarrow>
          (case forwardMessage w1 parsedMessage of
             (Inl e, w2) \<Rightarrow> (Inr (), logger LError (MessageFailed (message e)) w2)
           | (Inr u, w2) \<Rightarrow> (Inr (), w2)))"

definition onClose :: "world \<Rightarrow> handle \<Rightarrow> bool \<times> world" where
  "onClose w h = leave (logger LInfo ConnectionClosed w) (ByHandle h)"

definition onError :: "world \<Rightarrow> string \<Rightarrow> world" where
  "onError w m = logger LError (SocketError m) w"

section \<open>Sequences of registry operations\<close>

text \<open>
  What can happen to a room after its construction: the methods of the class that write,
  and the transport changing the state of a socket (\<open>Transport\<close>) between two calls.
\<close>

datatype op =
    Join handle "string option" time
  | Leave leaveArg
  | Forward json
  | SendTo string json
  | Clear
  | Transport handle nat "string option"

fun step :: "world \<Rightarrow> op \<Rightarrow> world" where
  "step w (Join h i t) = snd (join w h i t)"
| "step w (Leave a) = snd (leave w a)"
| "step w (Forward m) = snd (forwardMessage w m)"
| "step w (SendTo i m) = snd (sendToClient w i m)"
| "step w Clear = clear w"
| "step w (Transport h r e) =
     w\<lparr>sockets := (sockets w)(h := (sockets w h)\<lparr>readyState := r, sendError := e\<rparr>)\<rparr>"

definition run :: "op list \<Rightarrow> world \<Rightarrow> world" where
  "run ops w = foldl step w ops"

section \<open>Notions used to state the properties\<close>

text \<open>
  What holds of the map after any sequence of operations: no key twice, no empty key, and
  every record filed under the identity it carries.
\<close>

definition registry_ok :: "world \<Rightarrow> bool" where
  "registry_ok w = (distinct (map fst (clients w)) \<and> [] \<notin> set (map fst (clients w))
            \<and> list_all (\<lambda>e. id_of (snd e) = fst e) (clients w))"

text \<open>
  A record takes a broadcast when its socket is open and the socket's \<^verbatim>\<open>send\<close> does not
  throw; \<open>failLine\<close> is the log line of a record that does not; \<open>copies\<close> counts the records
  that point to one socket and take the broadcast.
\<close>

definition deliverable :: "world \<Rightarrow> clientInfo \<Rightarrow> bool" where
  "deliverable w r = (readyState (sockets w (ws r)) = 1 \<and> sendError (sockets w (ws r)) = None)"

definition failLine :: "world \<Rightarrow> string \<times> clientInfo \<Rightarrow> level \<times> logline" where
  "failLine w e =
     (if readyState (sockets w (ws (snd e))) = 1
      then (LError, BroadcastSendFailed (fst e) (case sendError (sockets w (ws (snd e))) of Some m \<Rightarrow> m | None \<Rightarrow> []))
      else (LWarn, BroadcastClosed (fst e)))"

definition copies :: "world \<Rightarrow> handle \<Rightarrow> (string \<times> clientInfo) list \<Rightarrow> nat" where
  "copies w h es = length (filter (\<lambda>e. ws (snd e) = h \<and> deliverable w (snd e)) es)"

text \<open>
  Concrete values for the worked examples below. In \<open>threeClients\<close> three sockets have
  joined as A, B and C; then the \<^verbatim>\<open>send\<close> of A's socket throws and B's socket is closed.
\<close>

definition openSocket :: socket where
  "openSocket = \<lparr>readyState = 1, clientId = None, sendError = None, outbox = []\<rparr>"

definition emptyRoom :: world where
  "emptyRoom = newRoom (\<lambda>h. openSocket) (\<lambda>n. 0)"

definition roomA :: world where
  "roomA = snd (join emptyRoom 1 (Some ''A'') 0)"

definition threeClients :: world where
  "threeClients =
     run [Join 11 (Some ''A'') 0, Join 12 (Some ''B'') 0, Join 13 (Some ''C'') 0,
          Transport 11 1 (Some ''boom''), Transport 12 3 None] emptyRoom"

definition onlyNull :: "string \<Rightarrow> string + json" where
  "onlyNull s = (if s = ''null'' then Inr JNull else Inl ''Unexpected token'')"

definition fields :: "json \<Rightarrow> (string \<times> json) list" where
  "fields v = (case v of JObj fs \<Rightarrow> fs | _ \<Rightarrow> [])"

section \<open>Auxiliary facts\<close>


lemma Map_set_keys:
  "map fst (Map_set k v m) = (if k \<in> set (map fst m) then map fst m else map fst m @ [k])"
  by (induction m) (force simp: image_iff)+

lemma Map_set_absent: "k \<notin> set (map fst m) \<Longrightarrow> Map_set k v m = m @ [(k, v)]"
  by (induction m) auto

lemma Map_set_length:
  "length (Map_set k v m) = (if k \<in> set (map fst m) then length m else Suc (length m))"
  by (induction m) (force simp: image_iff)+

lemma Map_set_get: "map_of (Map_set k v m) = (map_of m)(k \<mapsto> v)"
  by (induction m) (auto simp: fun_eq_iff)

lemma Map_set_distinct: "distinct (map fst m) \<Longrightarrow> distinct (map fst (Map_set k v m))"
  by (simp add: Map_set_keys)

lemma Map_set_values:
  "set (Map_set k v m) \<subseteq> insert (k, v) (set m)"
  by (induction m) (auto split: if_splits)

lemma length_byteToHex: "length (byteToHex b) = 2"
  by (simp add: byteToHex_def)

lemma length_toHex: "length (toHex bs) = 2 * length bs"
  by (induction bs) (simp_all add: toHex_def length_byteToHex)

lemma chooseId_None: "chooseId None w = (toHex (map (entropy w) [0..<8]), w\<lparr>entropy := (\<lambda>i. entropy w (i + 8))\<rparr>)"
  by (simp add: chooseId_def randomBytes_def)

lemma chooseId_empty: "chooseId (Some []) w = chooseId None w"
  by (simp add: chooseId_def)

lemma chooseId_given: "s \<noteq> [] \<Longrightarrow> chooseId (Some s) w = (s, w)"
  by (simp add: chooseId_def)

lemma chooseId_nonempty: "fst (chooseId g w) \<noteq> []"
proof (cases g)
  case None
  have "length (fst (chooseId None w)) = 16" by (simp add: chooseId_None length_toHex)
  then show ?thesis using None by auto
next
  case (Some s)
  show ?thesis
  proof (cases "s = []")
    case True
    have "length (fst (chooseId None w)) = 16" by (simp add: chooseId_None length_toHex)
    then show ?thesis using Some True by (auto simp: chooseId_empty)
  next
    case False
    then show ?thesis using Some by (simp add: chooseId_given)
  qed
qed

lemma chooseId_clients: "clients (snd (chooseId g w)) = clients w"
  by (auto simp: chooseId_def randomBytes_def split: option.splits)

lemma chooseId_sockets: "sockets (snd (chooseId g w)) = sockets w"
  by (auto simp: chooseId_def randomBytes_def split: option.splits)

lemma join_fst: "fst (join w h g t) = fst (chooseId g w)"
  by (simp add: join_def Let_def split: prod.splits)

lemma join_clients:
  "clients (snd (join w h g t)) =
     Map_set (fst (chooseId g w)) \<lparr>ws = h, id_of = fst (chooseId g w), joinedAt = t\<rparr> (clients w)"
  using chooseId_clients [of g w]
  by (cases "chooseId g w") (simp add: join_def Let_def logger_def)

lemma join_sockets:
  "sockets (snd (join w h g t)) = (sockets w)(h := (sockets w h)\<lparr>clientId := Some (fst (chooseId g w))\<rparr>)"
  using chooseId_sockets [of g w]
  by (cases "chooseId g w") (simp add: join_def Let_def logger_def)

lemma leave_clients:
  "clients (snd (leave w a)) =
     (case resolveId w a of None \<Rightarrow> clients w
      | Some k \<Rightarrow> if k = [] then clients w else filter (\<lambda>e. fst e \<noteq> k) (clients w))"
  by (simp add: leave_def Map_delete_def logger_def Let_def split: option.splits)

lemma leave_fst:
  "fst (leave w a) =
     (case resolveId w a of None \<Rightarrow> False
      | Some k \<Rightarrow> k \<noteq> [] \<and> k \<in> set (map fst (clients w)))"
  by (simp add: leave_def Map_delete_def Map_has_def logger_def Let_def split: option.splits)

lemma leave_sockets: "sockets (snd (leave w a)) = sockets w"
  by (simp add: leave_def Map_delete_def logger_def Let_def split: option.splits)

lemma forwardStep_clients: "clients (snd (snd (forwardStep msg e acc))) = clients (snd (snd acc))"
  by (cases acc) (auto simp: forwardStep_def ws_send_def logger_def Let_def split: option.splits)

lemma forwardLoop_clients: "clients (snd (snd (forwardLoop msg es acc))) = clients (snd (snd acc))"
  by (induction es arbitrary: acc) (simp_all add: forwardStep_clients)

lemma forwardMessage_clients: "clients (snd (forwardMessage w msg)) = clients w"
proof -
  let ?w0 = "logger LInfo (BroadcastStart (length (clients w))) w"
  obtain s f w1 where r: "forwardLoop msg (clients ?w0) (0, 0, ?w0) = (s, f, w1)"
    by (cases "forwardLoop msg (clients ?w0) (0, 0, ?w0)") auto
  have "clients w1 = clients ?w0"
    using forwardLoop_clients [of msg "clients ?w0" "(0, 0, ?w0)"] r by simp
  then show ?thesis using r by (simp add: forwardMessage_def Let_def logger_def)
qed

lemma forwardMessage_fst: "fst (forwardMessage w msg) = Inr ()"
  by (simp add: forwardMessage_def Let_def split: prod.splits)

lemma sendToClient_clients: "clients (snd (sendToClient w i msg)) = clients w"
  by (auto simp: sendToClient_def ws_send_def logger_def Let_def split: option.splits)

lemma registry_ok_newRoom: "registry_ok (newRoom socks ent)"
  by (simp add: registry_ok_def newRoom_def)

lemma registry_ok_join:
  assumes "registry_ok w"
  shows "registry_ok (snd (join w h g t))"
proof -
  let ?i = "fst (chooseId g w)"
  let ?r = "\<lparr>ws = h, id_of = ?i, joinedAt = t\<rparr>"
  have ne: "?i \<noteq> []" by (rule chooseId_nonempty)
  have d: "distinct (map fst (Map_set ?i ?r (clients w)))"
    using assms by (simp add: registry_ok_def Map_set_distinct)
  have e: "[] \<notin> set (map fst (Map_set ?i ?r (clients w)))"
    using assms ne by (auto simp: registry_ok_def Map_set_keys)
  have a: "list_all (\<lambda>e. id_of (snd e) = fst e) (Map_set ?i ?r (clients w))"
    using assms Map_set_values [of ?i ?r "clients w"] by (auto simp: registry_ok_def list_all_iff)
  show ?thesis using d e a by (simp add: registry_ok_def join_clients)
qed

lemma registry_ok_filter:
  assumes "registry_ok w" and "clients w' = filter p (clients w)"
  shows "registry_ok w'"
  using assms by (auto simp: registry_ok_def list_all_iff distinct_map_filter)

lemma registry_ok_same:
  assumes "registry_ok w" and "clients w' = clients w"
  shows "registry_ok w'"
  using assms by (simp add: registry_ok_def)

lemma registry_ok_leave:
  assumes "registry_ok w"
  shows "registry_ok (snd (leave w a))"
proof (cases "resolveId w a")
  case None
  then show ?thesis using assms by (simp add: registry_ok_same leave_clients)
next
  case (Some k)
  show ?thesis
  proof (cases "k = []")
    case True
    then show ?thesis using assms Some by (simp add: registry_ok_same leave_clients)
  next
    case False
    then have "clients (snd (leave w a)) = filter (\<lambda>e. fst e \<noteq> k) (clients w)"
      using Some by (simp add: leave_clients)
    then show ?thesis using assms by (rule registry_ok_filter [rotated])
  qed
qed

lemma registry_ok_step: "registry_ok w \<Longrightarrow> registry_ok (step w x)"
proof (cases x)
  case (Join h g t)
  assume "registry_ok w" then show ?thesis using Join by (simp add: registry_ok_join)
next
  case (Leave a)
  assume "registry_ok w" then show ?thesis using Leave by (simp add: registry_ok_leave)
next
  case (Forward m)
  assume "registry_ok w" then show ?thesis using Forward by (simp add: registry_ok_same forwardMessage_clients)
next
  case (SendTo i m)
  assume "registry_ok w" then show ?thesis using SendTo by (simp add: registry_ok_same sendToClient_clients)
next
  case Clear
  show ?thesis using Clear by (simp add: registry_ok_def clear_def logger_def)
next
  case (Transport h r e)
  assume "registry_ok w" then show ?thesis using Transport by (simp add: registry_ok_def)
qed

lemma registry_ok_foldl: "registry_ok w \<Longrightarrow> registry_ok (foldl step w ops)"
  by (induction ops arbitrary: w) (simp_all add: registry_ok_step)

lemma registry_ok_run: "registry_ok (run ops (newRoom socks ent))"
  by (simp add: run_def registry_ok_foldl registry_ok_newRoom)

lemma forwardStep_ok:
  assumes "deliverable w (snd e)"
  shows "forwardStep msg e (s, f, w) =
           (s + 1, f, w\<lparr>sockets := (sockets w)(ws (snd e) :=
                (sockets w (ws (snd e)))\<lparr>outbox := outbox (sockets w (ws (snd e))) @ [msg]\<rparr>)\<rparr>)"
  using assms by (simp add: forwardStep_def deliverable_def ws_send_def Let_def)

lemma forwardStep_fail:
  assumes "\<not> deliverable w (snd e)"
  shows "forwardStep msg e (s, f, w) = (s, f + 1, logger (fst (failLine w e)) (snd (failLine w e)) w)"
  using assms
  by (auto simp: forwardStep_def deliverable_def failLine_def ws_send_def Let_def split: option.splits)

lemma forwardLoop_spec:
  "forwardLoop msg es (s, f, w) = (s', f', w') \<Longrightarrow>
     s' = s + length (filter (\<lambda>e. deliverable w (snd e)) es)
   \<and> f' = f + length (filter (\<lambda>e. \<not> deliverable w (snd e)) es)
   \<and> logs w' = logs w @ map (failLine w) (filter (\<lambda>e. \<not> deliverable w (snd e)) es)
   \<and> (\<forall>h. readyState (sockets w' h) = readyState (sockets w h)
          \<and> sendError (sockets w' h) = sendError (sockets w h)
          \<and> clientId (sockets w' h) = clientId (sockets w h)
          \<and> outbox (sockets w' h) = outbox (sockets w h) @ replicate (copies w h es) msg)"
proof (induction es arbitrary: s f w)
  case Nil
  then show ?case by (simp add: copies_def)
next
  case (Cons e es)
  obtain s1 f1 w1 where st: "forwardStep msg e (s, f, w) = (s1, f1, w1)"
    by (cases "forwardStep msg e (s, f, w)") auto
  have loop: "forwardLoop msg es (s1, f1, w1) = (s', f', w')"
    using Cons.prems st by simp
  note ih = Cons.IH [OF loop]
  show ?case
  proof (cases "deliverable w (snd e)")
    case True
    have w1: "s1 = s + 1" "f1 = f" "logs w1 = logs w"
      "sockets w1 = (sockets w)(ws (snd e) :=
          (sockets w (ws (snd e)))\<lparr>outbox := outbox (sockets w (ws (snd e))) @ [msg]\<rparr>)"
      using st forwardStep_ok [OF True, of msg s f] by auto
    have same: "deliverable w1 = deliverable w" "failLine w1 = failLine w"
      by (auto simp: fun_eq_iff deliverable_def failLine_def w1)
    have cp: "copies w1 h es = copies w h es" for h
      by (simp add: copies_def same)
    show ?thesis
      using ih True by (auto simp: same cp w1 copies_def replicate_append_same)
  next
    case False
    have w1: "s1 = s" "f1 = f + 1" "logs w1 = logs w @ [failLine w e]" "sockets w1 = sockets w"
      using st forwardStep_fail [OF False, of msg s f] by (auto simp: logger_def)
    have same: "deliverable w1 = deliverable w" "failLine w1 = failLine w"
      by (auto simp: fun_eq_iff deliverable_def failLine_def w1)
    have cp: "copies w1 h es = copies w h es" for h
      by (simp add: copies_def same)
    show ?thesis
      using ih False by (auto simp: same cp w1 copies_def)
  qed
qed

lemma filter_key_length:
  "distinct (map fst m) \<Longrightarrow> k \<in> set (map fst m) \<Longrightarrow>
     length (filter (\<lambda>e. fst e \<noteq> k) m) = length m - 1"
proof (induction m)
  case Nil
  then show ?case by simp
next
  case (Cons e m)
  show ?case
  proof (cases "fst e = k")
    case True
    then have "k \<notin> set (map fst m)" using Cons.prems by auto
    then have "filter (\<lambda>e. fst e \<noteq> k) m = m" by (auto simp: filter_id_conv)
    then show ?thesis using True by simp
  next
    case False
    then have "k \<in> set (map fst m)" using Cons.prems by auto
    then have "m \<noteq> []" by auto
    then have "0 < length m" by simp
    then show ?thesis using False Cons \<open>k \<in> set (map fst m)\<close> by auto
  qed
qed

lemma map_of_filter_key:
  "map_of (filter (\<lambda>e. fst e \<noteq> k) m) j = (if j = k then None else map_of m j)"
  by (induction m) auto

lemma filter_key_absent: "k \<notin> set (map fst m) \<Longrightarrow> filter (\<lambda>e. fst e \<noteq> k) m = m"
  by (auto simp: filter_id_conv)

lemma only_record:
  "distinct (map fst m) \<Longrightarrow> list_all (\<lambda>e. id_of (snd e) = fst e) m \<Longrightarrow> map_of m i = Some r \<Longrightarrow>
     filter (\<lambda>r. id_of r = i) (map snd m) = [r]"
proof (induction m)
  case Nil
  then show ?case by simp
next
  case (Cons e m)
  show ?case
  proof (cases "fst e = i")
    case True
    then have r: "snd e = r" using Cons.prems(3) by (cases e) auto
    have "i \<notin> set (map fst m)" using True Cons.prems(1) by auto
    then have "filter (\<lambda>r. id_of r = i) (map snd m) = []"
      using Cons.prems(2) by (auto simp: filter_empty_conv list_all_iff)
    then show ?thesis using True r Cons.prems(2) by simp
  next
    case False
    then have "map_of m i = Some r" using Cons.prems(3) by (cases e) (auto split: if_splits)
    then show ?thesis using False Cons by auto
  qed
qed

lemma hexDigits_nth_inj:
  assumes "a < 16" and "b < 16" and "hexDigits ! a = hexDigits ! b"
  shows "a = b"
proof -
  have d: "distinct hexDigits" by (simp add: hexDigits_def)
  have l: "length hexDigits = 16" by (simp add: hexDigits_def)
  show ?thesis using assms d l by (simp add: nth_eq_iff_index_eq)
qed

lemma byteToHex_inj:
  assumes "byteToHex a = byteToHex b"
  shows "a = b"
proof -
  have ua: "unat a < 256" using unsigned_less [of a, where ?'a = nat] by simp
  have ub: "unat b < 256" using unsigned_less [of b, where ?'a = nat] by simp
  have "unat a div 16 = unat b div 16"
    using assms ua ub by (intro hexDigits_nth_inj) (auto simp: byteToHex_def)
  moreover have "unat a mod 16 = unat b mod 16"
    using assms by (intro hexDigits_nth_inj) (auto simp: byteToHex_def)
  ultimately have "unat a = unat b" by (metis div_mult_mod_eq)
  then show ?thesis by (simp add: word_unat_eq_iff)
qed

lemma toHex_Cons: "toHex (b # bs) = byteToHex b @ toHex bs"
  by (simp add: toHex_def)

lemma toHex_inj: "inj toHex"
proof (rule injI)
  fix xs ys
  show "toHex xs = toHex ys \<Longrightarrow> xs = ys"
  proof (induction xs arbitrary: ys)
    case Nil
    then have "length (toHex ys) = 0" by (simp add: toHex_def)
    then show ?case by (simp add: length_toHex)
  next
    case (Cons x xs)
    then have "length (toHex ys) = 2 * Suc (length xs)" by (metis length_toHex length_Cons)
    then obtain y ys' where ys: "ys = y # ys'" by (cases ys) (auto simp: length_toHex)
    have "byteToHex x @ toHex xs = byteToHex y @ toHex ys'"
      using Cons.prems ys by (simp add: toHex_Cons)
    then have "byteToHex x = byteToHex y \<and> toHex xs = toHex ys'"
      by (simp add: length_byteToHex)
    then show ?case using Cons.IH ys byteToHex_inj by auto
  qed
qed

lemma set_toHex: "set (toHex bs) \<subseteq> set hexDigits"
proof -
  have l: "length hexDigits = 16" by (simp add: hexDigits_def)
  have "set (byteToHex b) \<subseteq> set hexDigits" for b
  proof -
    have "unat b < 256" using unsigned_less [of b, where ?'a = nat] by simp
    then have "unat b div 16 < length hexDigits" "unat b mod 16 < length hexDigits"
      using l by auto
    then show ?thesis by (simp add: byteToHex_def)
  qed
  then show ?thesis by (auto simp: toHex_def)
qed

lemma onConnection_cookie:
  "cookie req = Some c \<Longrightarrow>
     onConnection w h req now stamp =
       (let w2 = (logger LInfo ConnectionOpened w)\<lparr>console := console w @ [Some c]\<rparr>;
            w3 = snd (join w2 h None now)
        in case ws_send h (connectedAck stamp) w3 of
             Inl e \<Rightarrow> (Inl e, w3)
           | Inr w4 \<Rightarrow> (Inr (), w4))"
  by (simp add: onConnection_def Let_def logger_def case_prod_beta split: sum.splits)

lemma threeClients_clients:
  "clients threeClients =
     [(''A'', \<lparr>ws = 11, id_of = ''A'', joinedAt = 0\<rparr>),
      (''B'', \<lparr>ws = 12, id_of = ''B'', joinedAt = 0\<rparr>),
      (''C'', \<lparr>ws = 13, id_of = ''C'', joinedAt = 0\<rparr>)]"
  by (simp add: threeClients_def run_def join_clients join_sockets chooseId_given emptyRoom_def newRoom_def)

lemma threeClients_sockets:
  "sockets threeClients 11 = \<lparr>readyState = 1, clientId = Some ''A'', sendError = Some ''boom'', outbox = []\<rparr>"
  "sockets threeClients 12 = \<lparr>readyState = 3, clientId = Some ''B'', sendError = None, outbox = []\<rparr>"
  "sockets threeClients 13 = \<lparr>readyState = 1, clientId = Some ''C'', sendError = None, outbox = []\<rparr>"
  by (simp_all add: threeClients_def run_def join_clients join_sockets chooseId_given emptyRoom_def
      newRoom_def openSocket_def)

section \<open>The claims\<close>

subsection \<open>Sending does not touch the registry\<close>

text \<open>
  Claim C10. For every state of the registry, every payload and every identity,
  \<^verbatim>\<open>forwardMessage\<close> and \<^verbatim>\<open>sendToClient\<close> leave the mapping as it was: the client count,
  the list of identities and the record found under each identity are the same after the
  call as before, whatever the sockets did with the writes.
\<close>

theorem sends_leave_registry_unchanged:
  "getClientCount (snd (forwardMessage w msg)) = getClientCount w
   \<and> getClientIds (snd (forwardMessage w msg)) = getClientIds w
   \<and> (\<forall>k. getClient (snd (forwardMessage w msg)) k = getClient w k)
   \<and> getClientCount (snd (sendToClient w i msg)) = getClientCount w
   \<and> getClientIds (snd (sendToClient w i msg)) = getClientIds w
   \<and> (\<forall>k. getClient (snd (sendToClient w i msg)) k = getClient w k)"
  by (simp add: getClientCount_def getClientIds_def getClient_def
      forwardMessage_clients sendToClient_clients)

subsection \<open>Unicast\<close>

text \<open>
  Claim C5. \<^verbatim>\<open>sendToClient\<close> always returns a boolean and never throws: the result is
  \<open>Inr b\<close>, where \<open>b\<close> is false when the identity is absent, false when the socket of the
  record is not open, false when the socket's \<^verbatim>\<open>send\<close> throws, and true otherwise; exactly
  in the last case the payload is appended, once, to what the target has received.
\<close>

theorem sendToClient_result:
  "fst (sendToClient w i msg) =
     Inr (case getClient w i of
            None \<Rightarrow> False
          | Some r \<Rightarrow> readyState (sockets w (ws r)) = 1 \<and> sendError (sockets w (ws r)) = None)
   \<and> (\<forall>h. outbox (sockets (snd (sendToClient w i msg)) h) =
            outbox (sockets w h) @
              (if fst (sendToClient w i msg) = Inr True \<and> map_option ws (getClient w i) = Some h
               then [msg] else []))"
  by (auto simp: sendToClient_def getClient_def ws_send_def logger_def Let_def split: option.splits)

text \<open>
  The theorem at \<open>threeClients\<close>, once for each case: the write throws (A), the socket is
  closed (B), the write succeeds (C), the identity is unknown (Z).
\<close>

theorem sendToClient_scenario:
  "fst (sendToClient threeClients ''A'' JNull) = Inr False
   \<and> fst (sendToClient threeClients ''B'' JNull) = Inr False
   \<and> fst (sendToClient threeClients ''C'' JNull) = Inr True
   \<and> fst (sendToClient threeClients ''Z'' JNull) = Inr False"
  using sendToClient_result [of threeClients "''A''" JNull]
    sendToClient_result [of threeClients "''B''" JNull]
    sendToClient_result [of threeClients "''C''" JNull]
    sendToClient_result [of threeClients "''Z''" JNull]
  by (simp add: getClient_def Map_get_def threeClients_clients threeClients_sockets)

subsection \<open>Identities\<close>

text \<open>
  Claim C9. A call of \<^verbatim>\<open>join\<close> with the empty string as identity does what a call without
  identity does: the client is registered under the hexadecimal text of eight bytes read
  from the random source, which is not empty, and the record is found under it. The
  identity is fresh: the call consumes the eight bytes it read, different bytes give
  different text, and the next such call reads the eight bytes that follow. After any
  sequence of operations on a new room the empty string is not a key of the registry.
\<close>

theorem join_falsy_identity_is_generated:
  "join w h (Some []) t = join w h None t
   \<and> fst (join w h None t) = toHex (map (entropy w) [0..<8])
   \<and> fst (join w h None t) \<noteq> []
   \<and> getClient (snd (join w h None t)) (fst (join w h None t)) =
        Some \<lparr>ws = h, id_of = fst (join w h None t), joinedAt = t\<rparr>
   \<and> entropy (snd (join w h (Some []) t)) = (\<lambda>n. entropy w (n + 8))
   \<and> inj toHex
   \<and> fst (join (snd (join w h (Some []) t)) h' (Some []) t') = toHex (map (entropy w) [8..<16])
   \<and> [] \<notin> set (getClientIds (run ops (newRoom socks ent)))"
proof -
  have a: "join w h (Some []) t = join w h None t"
    by (simp add: join_def chooseId_empty)
  have b: "fst (join w h None t) = toHex (map (entropy w) [0..<8])"
    by (simp add: join_fst chooseId_None)
  have c: "fst (join w h None t) \<noteq> []"
    by (simp add: join_fst chooseId_nonempty)
  have d: "getClient (snd (join w h None t)) (fst (join w h None t)) =
        Some \<lparr>ws = h, id_of = fst (join w h None t), joinedAt = t\<rparr>"
    by (simp add: getClient_def Map_get_def join_clients Map_set_get join_fst)
  have f: "entropy (snd (join w h (Some []) t)) = (\<lambda>n. entropy w (n + 8))"
    by (simp add: join_def chooseId_empty chooseId_None logger_def Let_def)
  have g: "inj toHex" by (rule toHex_inj)
  have "map (\<lambda>n. entropy w (n + 8)) [0..<8] = map (entropy w) [8..<16]"
    by (simp add: upt_rec)
  then have i: "fst (join (snd (join w h (Some []) t)) h' (Some []) t') = toHex (map (entropy w) [8..<16])"
    using f by (simp add: join_fst chooseId_empty chooseId_None)
  have e: "[] \<notin> set (getClientIds (run ops (newRoom socks ent)))"
    using registry_ok_run [of ops socks ent] by (simp add: registry_ok_def getClientIds_def)
  show ?thesis using a b c d e f g i by simp
qed

text \<open>
  Claim C4, as stated: the generated identity has at least 32 hexadecimal characters
  (16 bytes). It fails: on a new room whose random source yields zero bytes, \<^verbatim>\<open>join\<close>
  without identity returns sixteen characters.
\<close>

theorem generated_identity_counterexample:
  "fst (join emptyRoom 1 None 0) = ''0000000000000000''
   \<and> \<not> 32 \<le> length (fst (join emptyRoom 1 None 0))"
  by (simp add: join_fst chooseId_None emptyRoom_def newRoom_def toHex_def byteToHex_def
      hexDigits_def upt_rec)

text \<open>
  Claim C4, amended. For every call of \<^verbatim>\<open>join\<close> without identity, the generated identity
  is the lower-case hexadecimal text of the next 8 bytes of the random source: 16
  characters, all of them hexadecimal digits, different for different bytes; the call
  consumes these 8 bytes.
\<close>

theorem generated_identity_is_eight_bytes:
  "fst (join w h None t) = toHex (map (entropy w) [0..<8])
   \<and> length (map (entropy w) [0..<8]) = 8
   \<and> length (fst (join w h None t)) = 16
   \<and> set (fst (join w h None t)) \<subseteq> set hexDigits
   \<and> inj toHex
   \<and> entropy (snd (join w h None t)) = (\<lambda>n. entropy w (n + 8))"
proof -
  have "entropy (snd (join w h None t)) = (\<lambda>n. entropy w (n + 8))"
    by (simp add: join_def chooseId_None logger_def Let_def)
  then show ?thesis
    by (simp add: join_fst chooseId_None length_toHex set_toHex toHex_inj)
qed

subsection \<open>Broadcast\<close>

text \<open>
  Claim C1. For every state of the registry and every payload, \<^verbatim>\<open>forwardMessage\<close> returns
  without throwing and makes one attempt for each registered record: the two counters it
  logs at the end add up to the client count at the time of the call. A record whose
  socket is closed or whose \<^verbatim>\<open>send\<close> throws adds one log line and one failure and
  nothing else: every socket receives one copy of the payload for each record that points
  to it and can take it, wherever the failing records stand in the iteration.
\<close>

theorem forwardMessage_attempts_every_record:
  "fst (forwardMessage w msg) = Inr ()
   \<and> logs (snd (forwardMessage w msg)) =
        logs w @ [(LInfo, BroadcastStart (getClientCount w))]
          @ map (failLine w) (filter (\<lambda>e. \<not> deliverable w (snd e)) (clients w))
          @ [(LInfo, BroadcastDone (length (filter (\<lambda>e. deliverable w (snd e)) (clients w)))
                                   (length (filter (\<lambda>e. \<not> deliverable w (snd e)) (clients w))))]
   \<and> length (filter (\<lambda>e. deliverable w (snd e)) (clients w))
        + length (filter (\<lambda>e. \<not> deliverable w (snd e)) (clients w)) = getClientCount w
   \<and> (\<forall>h. outbox (sockets (snd (forwardMessage w msg)) h) =
            outbox (sockets w h) @ replicate (copies w h (clients w)) msg)"
proof -
  let ?w0 = "logger LInfo (BroadcastStart (length (clients w))) w"
  obtain s f w1 where r: "forwardLoop msg (clients ?w0) (0, 0, ?w0) = (s, f, w1)"
    by (cases "forwardLoop msg (clients ?w0) (0, 0, ?w0)") auto
  have same: "deliverable ?w0 = deliverable w" "failLine ?w0 = failLine w"
    "clients ?w0 = clients w" "sockets ?w0 = sockets w"
    by (auto simp: fun_eq_iff deliverable_def failLine_def logger_def)
  have cp: "copies ?w0 h es = copies w h es" for h es
    by (simp add: copies_def same)
  note sp = forwardLoop_spec [OF r, unfolded same cp]
  have res: "forwardMessage w msg = (Inr (), logger LInfo (BroadcastDone s f) w1)"
    using r by (simp add: forwardMessage_def Let_def)
  have a: "fst (forwardMessage w msg) = Inr ()" by (simp add: res)
  have b: "logs (snd (forwardMessage w msg)) =
        logs w @ [(LInfo, BroadcastStart (getClientCount w))]
          @ map (failLine w) (filter (\<lambda>e. \<not> deliverable w (snd e)) (clients w))
          @ [(LInfo, BroadcastDone (length (filter (\<lambda>e. deliverable w (snd e)) (clients w)))
                                   (length (filter (\<lambda>e. \<not> deliverable w (snd e)) (clients w))))]"
    using sp by (simp add: res logger_def getClientCount_def)
  have c: "length (filter (\<lambda>e. deliverable w (snd e)) (clients w))
        + length (filter (\<lambda>e. \<not> deliverable w (snd e)) (clients w)) = getClientCount w"
    using sum_length_filter_compl [of "\<lambda>e. deliverable w (snd e)" "clients w"]
    by (simp add: getClientCount_def)
  have d: "outbox (sockets (snd (forwardMessage w msg)) h) =
            outbox (sockets w h) @ replicate (copies w h (clients w)) msg" for h
    using sp by (simp add: res logger_def)
  show ?thesis using a b c d by blast
qed

text \<open>
  The theorem at \<open>threeClients\<close>: the write to A throws and B is closed, both before C in
  the iteration; three attempts are made, two failures are logged, and C receives the payload.
\<close>

theorem forwardMessage_scenario:
  "getClientCount threeClients = 3
   \<and> logs (snd (forwardMessage threeClients (JStr ''hi''))) =
        logs threeClients @
          [(LInfo, BroadcastStart 3), (LError, BroadcastSendFailed ''A'' ''boom''),
           (LWarn, BroadcastClosed ''B''), (LInfo, BroadcastDone 1 2)]
   \<and> outbox (sockets (snd (forwardMessage threeClients (JStr ''hi''))) 13) = [JStr ''hi'']"
  using forwardMessage_attempts_every_record [of threeClients "JStr ''hi''"]
  by (simp add: threeClients_clients threeClients_sockets getClientCount_def deliverable_def
      failLine_def copies_def)

subsection \<open>Leaving\<close>

text \<open>
  Claim C6. In every state a room can reach, \<^verbatim>\<open>leave\<close> takes an identity string as it is
  and reads the identity of a socket from the field that \<^verbatim>\<open>join\<close> attached to it. When
  that identity is registered, the call returns true, the record is gone, every other
  record stays and the count drops by one. When the socket carries no identity, or the
  identity is not registered, the call returns false and the registry is what it was.
\<close>

theorem leave_resolves_and_removes:
  "(let w = run ops (newRoom socks ent) in
      (case resolveId w a of
         None \<Rightarrow> fst (leave w a) = False \<and> clients (snd (leave w a)) = clients w
       | Some k \<Rightarrow>
           if k \<in> set (getClientIds w)
           then fst (leave w a) = True
              \<and> (\<forall>j. getClient (snd (leave w a)) j = (if j = k then None else getClient w j))
              \<and> getClientCount (snd (leave w a)) = getClientCount w - 1
           else fst (leave w a) = False \<and> clients (snd (leave w a)) = clients w)
    \<and> resolveId w (ById s) = Some s
    \<and> resolveId (snd (join w h g t)) (ByHandle h) = Some (fst (join w h g t)))"
proof -
  define w where "w = run ops (newRoom socks ent)"
  have ok: "registry_ok w" unfolding w_def by (rule registry_ok_run)
  have d: "distinct (map fst (clients w))" and ne: "[] \<notin> set (map fst (clients w))"
    using ok by (simp_all add: registry_ok_def)
  have A: "(case resolveId w a of
         None \<Rightarrow> fst (leave w a) = False \<and> clients (snd (leave w a)) = clients w
       | Some k \<Rightarrow>
           if k \<in> set (getClientIds w)
           then fst (leave w a) = True
              \<and> (\<forall>j. getClient (snd (leave w a)) j = (if j = k then None else getClient w j))
              \<and> getClientCount (snd (leave w a)) = getClientCount w - 1
           else fst (leave w a) = False \<and> clients (snd (leave w a)) = clients w)"
  proof (cases "resolveId w a")
    case None
    then show ?thesis by (simp add: leave_fst leave_clients)
  next
    case (Some k)
    show ?thesis
    proof (cases "k \<in> set (getClientIds w)")
      case True
      then have k: "k \<in> set (map fst (clients w))" by (simp add: getClientIds_def)
      then have "k \<noteq> []" using ne by metis
      then show ?thesis
        using Some True k d
        by (simp add: leave_fst leave_clients getClient_def Map_get_def getClientCount_def
            map_of_filter_key filter_key_length)
    next
      case False
      then have k: "k \<notin> set (map fst (clients w))" by (simp add: getClientIds_def)
      then show ?thesis
        using Some False by (simp add: leave_fst leave_clients filter_key_absent)
    qed
  qed
  have B: "resolveId w (ById s) = Some s" by (simp add: resolveId_def)
  have C: "resolveId (snd (join w h g t)) (ByHandle h) = Some (fst (join w h g t))"
    by (simp add: resolveId_def join_sockets join_fst)
  show ?thesis
    unfolding Let_def
    by (intro conjI) (rule A [unfolded w_def], rule B [unfolded w_def], rule C [unfolded w_def])
qed

text \<open>
  The theorem after one \<^verbatim>\<open>join\<close>: the socket that joined leaves by handle, a socket that
  never joined does not.
\<close>

theorem leave_by_handle_example:
  "fst (leave (run [Join 1 None 0] emptyRoom) (ByHandle 1)) = True
   \<and> getClientCount (snd (leave (run [Join 1 None 0] emptyRoom) (ByHandle 1))) = 0
   \<and> fst (leave (run [Join 1 None 0] emptyRoom) (ByHandle 2)) = False"
  using leave_resolves_and_removes [where ops = "[Join 1 None 0]" and socks = "\<lambda>h. openSocket"
      and ent = "\<lambda>n. 0" and a = "ByHandle 1"]
    leave_resolves_and_removes [where ops = "[Join 1 None 0]" and socks = "\<lambda>h. openSocket"
      and ent = "\<lambda>n. 0" and a = "ByHandle 2"]
  by (simp add: Let_def emptyRoom_def run_def resolveId_def join_sockets join_clients chooseId_None
      newRoom_def getClientIds_def getClientCount_def openSocket_def)

text \<open>
  Claim C8, as stated: in every registry, \<^verbatim>\<open>join\<close> and then \<^verbatim>\<open>leave\<close> on the identity
  returned restore the client count. It fails where the identity is already registered:
  the room holds one client under \<^verbatim>\<open>"A"\<close>, a second socket joins as \<^verbatim>\<open>"A"\<close> and replaces
  the record, and the \<^verbatim>\<open>leave\<close> empties the room.
\<close>

theorem join_then_leave_counterexample:
  "getClientCount roomA = 1
   \<and> fst (join roomA 2 (Some ''A'') 5) = ''A''
   \<and> getClientCount (snd (leave (snd (join roomA 2 (Some ''A'') 5)) (ById ''A''))) = 0"
  by (simp add: roomA_def emptyRoom_def newRoom_def getClientCount_def join_fst join_clients
      chooseId_given leave_clients resolveId_def)

text \<open>
  Claim C8, amended. In every registry and for every socket, when the identity that
  \<^verbatim>\<open>join\<close> uses is not registered yet (as in an empty registry), \<^verbatim>\<open>join\<close> adds one client,
  the \<^verbatim>\<open>leave\<close> on the identity returned answers true and restores the count, the
  identities and every lookup, and a second \<^verbatim>\<open>leave\<close> on that identity answers false.
\<close>

theorem join_then_leave_restores:
  assumes "fst (join w h g t) \<notin> set (getClientIds w)"
  shows "(let i = fst (join w h g t);
              w1 = snd (join w h g t);
              w2 = snd (leave w1 (ById i))
          in fst (leave w1 (ById i)) = True
           \<and> getClientCount w1 = getClientCount w + 1
           \<and> getClientCount w2 = getClientCount w
           \<and> getClientIds w2 = getClientIds w
           \<and> (\<forall>k. getClient w2 k = getClient w k)
           \<and> fst (leave w2 (ById i)) = False)"
proof -
  let ?i = "fst (chooseId g w)"
  let ?r = "\<lparr>ws = h, id_of = ?i, joinedAt = t\<rparr>"
  have ne: "?i \<noteq> []" by (rule chooseId_nonempty)
  have ab: "?i \<notin> set (map fst (clients w))"
    using assms by (simp add: join_fst getClientIds_def)
  have c1: "clients (snd (join w h g t)) = clients w @ [(?i, ?r)]"
    using ab by (simp add: join_clients Map_set_absent)
  have c2: "clients (snd (leave (snd (join w h g t)) (ById ?i))) = clients w"
    using ne ab by (simp add: leave_clients resolveId_def c1 filter_key_absent)
  have r1: "fst (leave (snd (join w h g t)) (ById ?i)) = True"
    using ne by (simp add: leave_fst resolveId_def c1)
  have r2: "fst (leave (snd (leave (snd (join w h g t)) (ById ?i))) (ById ?i)) = False"
    using ab by (simp add: leave_fst resolveId_def c2)
  show ?thesis
    using c1 c2 r1 r2
    by (simp add: Let_def join_fst getClientCount_def getClientIds_def getClient_def)
qed

theorem join_then_leave_restores_witness:
  "fst (join emptyRoom 1 None 0) \<notin> set (getClientIds emptyRoom)
   \<and> getClientCount emptyRoom = 0
   \<and> getClientCount (snd (leave (snd (join emptyRoom 1 None 0)) (ById (fst (join emptyRoom 1 None 0))))) = 0
   \<and> fst (leave (snd (leave (snd (join emptyRoom 1 None 0)) (ById (fst (join emptyRoom 1 None 0)))))
            (ById (fst (join emptyRoom 1 None 0)))) = False"
proof -
  have h: "fst (join emptyRoom 1 None 0) \<notin> set (getClientIds emptyRoom)"
    by (simp add: getClientIds_def emptyRoom_def newRoom_def)
  have z: "getClientCount emptyRoom = 0"
    by (simp add: getClientCount_def emptyRoom_def newRoom_def)
  show ?thesis
    using h z join_then_leave_restores [OF h] by (simp add: Let_def)
qed

subsection \<open>One record for each identity\<close>

text \<open>
  Claim C2. After any sequence of operations on a new room no identity is registered
  twice. A \<^verbatim>\<open>join\<close> under an identity that is registered returns that identity and
  replaces the record: the lookup yields the record of the new socket, it is the only
  record of the registry that carries the identity, and the identities and the count are
  what they were.
\<close>

theorem one_record_per_identity:
  "(let w = run ops (newRoom socks ent);
        r = \<lparr>ws = h, id_of = i, joinedAt = t\<rparr>
    in distinct (getClientIds w)
     \<and> (i \<in> set (getClientIds w) \<longrightarrow>
          fst (join w h (Some i) t) = i
        \<and> getClient (snd (join w h (Some i) t)) i = Some r
        \<and> filter (\<lambda>x. id_of x = i) (map snd (clients (snd (join w h (Some i) t)))) = [r]
        \<and> getClientIds (snd (join w h (Some i) t)) = getClientIds w
        \<and> getClientCount (snd (join w h (Some i) t)) = getClientCount w
        \<and> distinct (getClientIds (snd (join w h (Some i) t)))))"
proof -
  define w where "w = run ops (newRoom socks ent)"
  define r where "r = \<lparr>ws = h, id_of = i, joinedAt = t\<rparr>"
  have ok: "registry_ok w" unfolding w_def by (rule registry_ok_run)
  have A: "distinct (getClientIds w)"
    using ok by (simp add: registry_ok_def getClientIds_def)
  have B: "fst (join w h (Some i) t) = i
        \<and> getClient (snd (join w h (Some i) t)) i = Some r
        \<and> filter (\<lambda>x. id_of x = i) (map snd (clients (snd (join w h (Some i) t)))) = [r]
        \<and> getClientIds (snd (join w h (Some i) t)) = getClientIds w
        \<and> getClientCount (snd (join w h (Some i) t)) = getClientCount w
        \<and> distinct (getClientIds (snd (join w h (Some i) t)))"
    if mem: "i \<in> set (getClientIds w)"
  proof -
    have k: "i \<in> set (map fst (clients w))" using mem by (simp add: getClientIds_def)
    have "i \<noteq> []" using ok k unfolding registry_ok_def by metis
    then have ch: "chooseId (Some i) w = (i, w)" by (rule chooseId_given)
    have cl: "clients (snd (join w h (Some i) t)) = Map_set i r (clients w)"
      by (simp add: join_clients ch r_def)
    have ok': "registry_ok (snd (join w h (Some i) t))" using ok by (rule registry_ok_join)
    have g: "map_of (Map_set i r (clients w)) i = Some r" by (simp add: Map_set_get)
    have f: "filter (\<lambda>x. id_of x = i) (map snd (Map_set i r (clients w))) = [r]"
      using ok' g unfolding registry_ok_def cl by (intro only_record) simp_all
    show ?thesis
      using k A f g ok'
      by (simp add: join_fst ch cl getClient_def Map_get_def getClientIds_def
          getClientCount_def Map_set_keys Map_set_length)
  qed
  show ?thesis
    unfolding Let_def using A B unfolding w_def r_def by blast
qed

theorem one_record_per_identity_witness:
  "''A'' \<in> set (getClientIds (run [Join 1 (Some ''A'') 0] emptyRoom))
   \<and> getClient (snd (join (run [Join 1 (Some ''A'') 0] emptyRoom) 2 (Some ''A'') 5)) ''A''
       = Some \<lparr>ws = 2, id_of = ''A'', joinedAt = 5\<rparr>
   \<and> getClientCount (snd (join (run [Join 1 (Some ''A'') 0] emptyRoom) 2 (Some ''A'') 5)) = 1"
proof -
  have m: "''A'' \<in> set (getClientIds (run [Join 1 (Some ''A'') 0] (newRoom (\<lambda>h. openSocket) (\<lambda>n. 0))))"
    by (simp add: run_def getClientIds_def join_clients chooseId_given newRoom_def)
  have c: "getClientCount (run [Join 1 (Some ''A'') 0] (newRoom (\<lambda>h. openSocket) (\<lambda>n. 0))) = 1"
    by (simp add: run_def getClientCount_def join_clients chooseId_given newRoom_def)
  show ?thesis
    using m c one_record_per_identity [where ops = "[Join 1 (Some ''A'') 0]" and socks = "\<lambda>h. openSocket"
        and ent = "\<lambda>n. 0" and i = "''A''" and h = 2 and t = 5]
    by (simp add: Let_def emptyRoom_def)
qed

subsection \<open>The connection handler\<close>

text \<open>
  Claim C3, as stated: the acknowledgment sent to a new client contains the identity
  that \<^verbatim>\<open>join\<close> assigned. It fails: a socket connects to an empty room with a cookie
  header, \<^verbatim>\<open>join\<close> registers it as \<^verbatim>\<open>0000000000000000\<close>, and the one frame the socket
  receives has the fields \<^verbatim>\<open>type\<close>, \<^verbatim>\<open>message\<close> and \<^verbatim>\<open>timestamp\<close>, none of which is that
  identity.
\<close>

theorem connected_ack_counterexample:
  "getClientIds (snd (onConnection emptyRoom 1 \<lparr>cookie = Some ''user=bob''\<rparr> 0 ''2026-01-01T00:00:00.000Z''))
     = [''0000000000000000'']
   \<and> outbox (sockets (snd (onConnection emptyRoom 1 \<lparr>cookie = Some ''user=bob''\<rparr> 0 ''2026-01-01T00:00:00.000Z'')) 1)
     = [JObj [(''type'', JStr ''connected''), (''message'', JStr connectedText),
              (''timestamp'', JStr ''2026-01-01T00:00:00.000Z'')]]
   \<and> JStr ''0000000000000000'' \<notin> snd ` set (fields (JObj [(''type'', JStr ''connected''),
         (''message'', JStr connectedText), (''timestamp'', JStr ''2026-01-01T00:00:00.000Z'')]))"
  by (simp add: onConnection_cookie Let_def getClientIds_def join_clients join_sockets chooseId_None
      ws_send_def logger_def emptyRoom_def newRoom_def openSocket_def connectedAck_def fields_def
      connectedText_def toHex_def byteToHex_def hexDigits_def upt_rec)

text \<open>
  Claim C3, amended. For every accepted connection whose request carries a cookie header,
  whatever its content, the handler calls \<^verbatim>\<open>join\<close> without identity: the socket is
  registered under the generated identity, which is attached to the socket. It then calls
  the socket's \<^verbatim>\<open>send\<close> with the acknowledgment, an object of exactly the fields
  \<^verbatim>\<open>type = "connected"\<close>, \<^verbatim>\<open>message\<close> and \<^verbatim>\<open>timestamp\<close>; the identity is not in it. The
  frame is delivered when \<^verbatim>\<open>send\<close> does not throw, and the error leaves the handler when
  it does.
\<close>

theorem onConnection_with_cookie:
  assumes "cookie req = Some c"
  shows "(let r = onConnection w h req now stamp;
              i = toHex (map (entropy w) [0..<8])
          in getClient (snd r) i = Some \<lparr>ws = h, id_of = i, joinedAt = now\<rparr>
           \<and> clientId (sockets (snd r) h) = Some i
           \<and> (case sendError (sockets w h) of
                 None \<Rightarrow> fst r = Inr ()
                        \<and> outbox (sockets (snd r) h) = outbox (sockets w h) @ [connectedAck stamp]
               | Some e \<Rightarrow> fst r = Inl (SendError e)
                        \<and> outbox (sockets (snd r) h) = outbox (sockets w h))
           \<and> fields (connectedAck stamp) =
                [(''type'', JStr ''connected''), (''message'', JStr connectedText),
                 (''timestamp'', JStr stamp)])"
proof -
  let ?w2 = "(logger LInfo ConnectionOpened w)\<lparr>console := console w @ [Some c]\<rparr>"
  let ?w3 = "snd (join ?w2 h None now)"
  let ?i = "toHex (map (entropy w) [0..<8])"
  have ch: "fst (chooseId None ?w2) = ?i" by (simp add: chooseId_None logger_def)
  have cl: "clients ?w3 = Map_set ?i \<lparr>ws = h, id_of = ?i, joinedAt = now\<rparr> (clients w)"
    by (simp add: join_clients ch) (simp add: logger_def)
  have so: "sockets ?w3 = (sockets w)(h := (sockets w h)\<lparr>clientId := Some ?i\<rparr>)"
    by (simp add: join_sockets ch) (simp add: logger_def)
  show ?thesis
  proof (cases "sendError (sockets w h)")
    case None
    then show ?thesis
      using cl so
      by (simp add: onConnection_cookie [OF assms] Let_def ws_send_def getClient_def Map_get_def
          Map_set_get connectedAck_def fields_def)
  next
    case (Some e)
    then show ?thesis
      using cl so
      by (simp add: onConnection_cookie [OF assms] Let_def ws_send_def getClient_def Map_get_def
          Map_set_get connectedAck_def fields_def)
  qed
qed

theorem onConnection_with_cookie_witness:
  "cookie \<lparr>cookie = Some ''user=bob''\<rparr> = Some ''user=bob''
   \<and> fst (onConnection emptyRoom 1 \<lparr>cookie = Some ''user=bob''\<rparr> 0 ''2026-01-01T00:00:00.000Z'') = Inr ()
   \<and> outbox (sockets (snd (onConnection emptyRoom 1 \<lparr>cookie = Some ''user=bob''\<rparr> 0 ''2026-01-01T00:00:00.000Z'')) 1)
       = [connectedAck ''2026-01-01T00:00:00.000Z'']"
proof -
  have h: "cookie \<lparr>cookie = Some ''user=bob''\<rparr> = Some ''user=bob''" by simp
  have s: "sendError (sockets emptyRoom 1) = None" "outbox (sockets emptyRoom 1) = []"
    by (simp_all add: emptyRoom_def newRoom_def openSocket_def)
  show ?thesis
    using onConnection_with_cookie [OF h, of emptyRoom 1 0 "''2026-01-01T00:00:00.000Z''"] s
    by (simp add: Let_def)
qed

text \<open>
  Without a cookie header the handler throws at \<^verbatim>\<open>cookies.split\<close>, before \<^verbatim>\<open>join\<close>: the
  registry and the sockets are what they were, and no acknowledgment is sent.
\<close>

lemma onConnection_without_cookie:
  "cookie req = None \<Longrightarrow>
     fst (onConnection w h req now stamp) = Inl (TypeError ''Cannot read properties of undefined (reading 'split')'')
   \<and> clients (snd (onConnection w h req now stamp)) = clients w
   \<and> sockets (snd (onConnection w h req now stamp)) = sockets w"
  by (simp add: onConnection_def Let_def logger_def)

subsection \<open>The message handler\<close>

text \<open>
  Claim C7. When the text of an inbound message does not parse, the handler logs the
  text it received and then the error, and does nothing else: the state differs from the
  one before in these two log lines only. No broadcast starts, no socket changes (none
  is closed, none is written to), and the client count is what it was.
\<close>

theorem malformed_message_is_dropped:
  assumes "parse raw = Inl m"
  shows "onMessage parse w raw =
           (Inr (), w\<lparr>logs := logs w @ [(LInfo, MessageReceived raw), (LError, MessageFailed m)]\<rparr>)
       \<and> getClientCount (snd (onMessage parse w raw)) = getClientCount w
       \<and> clients (snd (onMessage parse w raw)) = clients w
       \<and> sockets (snd (onMessage parse w raw)) = sockets w"
  using assms by (simp add: onMessage_def Let_def logger_def getClientCount_def)

theorem malformed_message_is_dropped_witness:
  "onlyNull ''{not json'' = Inl ''Unexpected token''
   \<and> logs (snd (onMessage onlyNull roomA ''{not json'')) =
        logs roomA @ [(LInfo, MessageReceived ''{not json''), (LError, MessageFailed ''Unexpected token'')]
   \<and> getClientCount (snd (onMessage onlyNull roomA ''{not json'')) = getClientCount roomA
   \<and> sockets (snd (onMessage onlyNull roomA ''{not json'')) = sockets roomA"
proof -
  have h: "onlyNull ''{not json'' = Inl ''Unexpected token''" by (simp add: onlyNull_def)
  show ?thesis
    using h malformed_message_is_dropped [where parse = onlyNull and raw = "''{not json''"
        and m = "''Unexpected token''" and w = roomA, OF h]
    by (simp add: getClientCount_def)
qed

text \<open>A message that parses is broadcast; the handler returns what the broadcast leaves.\<close>

lemma wellformed_message_is_broadcast:
  "parse raw = Inr v \<Longrightarrow>
     onMessage parse w raw = (Inr (), snd (forwardMessage (logger LInfo (MessageReceived raw) w) v))"
  by (cases "forwardMessage (logger LInfo (MessageReceived raw) w) v")
     (use forwardMessage_fst [of "logger LInfo (MessageReceived raw) w" v] in
       \<open>auto simp: onMessage_def Let_def\<close>)

end
